theory Spec2Isabelle
  imports Main
begin

section \<open>The chess engine of js/chess.ts\<close>

text \<open>
  A shallow embedding of the move-legality and board-state engine: the coordinate mapper
  (\<open>algebraicToIndices\<close>, \<open>indicesToAlgebraic\<close>), the position parser (\<open>fenToBoard\<close>), the
  pseudo-legality test (\<open>isValidMove\<close>) and the move application (\<open>makeMove\<close>).

  Strings are lists of \<open>char\<close>; a one-character JavaScript string is a \<open>char\<close>, and the
  \<open>char\<close> with code \<open>n\<close> is the UTF-16 code unit \<open>n\<close>, so the model covers text of code
  units 0..255 (Latin-1). Case mapping is the Unicode one on that range. JavaScript
  numbers are \<open>int\<close> where they may be negative and \<open>nat\<close> where the code only counts
  upwards from zero. A \<open>TypeError\<close> raised by indexing \<open>undefined\<close> is the left injection
  of a sum.
\<close>

subsection \<open>Data model\<close>

text \<open>\<open>SquareState = PieceCode | null\<close>: \<open>None\<close> is the falsy cell (\<open>null\<close>, or \<open>undefined\<close>
  when an index is past the end of a row), \<open>Some ch\<close> a one-character piece code. The parser
  stores whatever character it reads (\<open>char as PieceCode\<close>), so a cell is any character.\<close>

type_synonym SquareState = "char option"

type_synonym BoardState = "SquareState list list"

record AlgebraicMapping =
  row :: nat
  col :: nat

datatype PlayerTurn = Turn_w | Turn_b

datatype error = TypeError

subsection \<open>Primitives of the host language\<close>

definition charCode :: "char \<Rightarrow> int" where
  "charCode ch = int (of_char ch)"

definition fromCharCode :: "int \<Rightarrow> char" where
  "fromCharCode n = char_of (nat n)"

text \<open>\<open>parseInt\<close> of a one-character string: a decimal digit gives its value, anything else
  \<open>NaN\<close>, which is \<open>None\<close> here.\<close>

definition parseInt :: "char \<Rightarrow> int option" where
  "parseInt ch =
     (if 48 \<le> charCode ch \<and> charCode ch \<le> 57 then Some (charCode ch - 48) else None)"

fun natToString :: "nat \<Rightarrow> string" where
  "natToString n =
     (if n < 10 then [fromCharCode (48 + int n)]
      else natToString (n div 10) @ [fromCharCode (48 + int (n mod 10))])"

definition toString :: "int \<Rightarrow> string" where
  "toString i = (if i < 0 then CHR ''-'' # natToString (nat (- i)) else natToString (nat i))"

text \<open>\<open>ch.toUpperCase()\<close> for a one-character string of a code unit 0..255. The result
  can leave that range and can be two characters long, so it is given as its UTF-16 code
  units: a..z, U+00E0..U+00F6 and U+00F8..U+00FE move down by 32; the micro sign U+00B5
  becomes U+039C, the sharp s U+00DF becomes \<open>SS\<close>, and U+00FF becomes U+0178; every
  other character is unchanged.\<close>

definition toUpperCase :: "char \<Rightarrow> int list" where
  "toUpperCase ch =
     (let c = charCode ch
      in if (97 \<le> c \<and> c \<le> 122) \<or> (224 \<le> c \<and> c \<le> 246) \<or> (248 \<le> c \<and> c \<le> 254)
         then [c - 32]
         else if c = 181 then [924]
         else if c = 223 then [83, 83]
         else if c = 255 then [376]
         else [c])"

text \<open>\<open>s === s.toUpperCase()\<close> for a one-character string \<open>s\<close>: equality of the code units.\<close>

definition equalsUpperCase :: "char \<Rightarrow> bool" where
  "equalsUpperCase ch \<longleftrightarrow> [charCode ch] = toUpperCase ch"

text \<open>\<open>ch.toLowerCase()\<close> on the same range stays in it and is one character long: A..Z,
  U+00C0..U+00D6 and U+00D8..U+00DE move up by 32; every other character is unchanged.\<close>

definition toLowerCase :: "char \<Rightarrow> char" where
  "toLowerCase ch =
     (let c = charCode ch
      in if (65 \<le> c \<and> c \<le> 90) \<or> (192 \<le> c \<and> c \<le> 214) \<or> (216 \<le> c \<and> c \<le> 222)
         then fromCharCode (c + 32)
         else ch)"

text \<open>\<open>s.split(d)\<close> for a one-character separator: never empty, \<open>''''\<close> gives \<open>['''']\<close>.\<close>

fun split :: "char \<Rightarrow> string \<Rightarrow> string list" where
  "split d [] = [[]]"
| "split d (c # cs) =
     (if c = d then [] # split d cs
      else (case split d cs of w # ws \<Rightarrow> (c # w) # ws | [] \<Rightarrow> [[c]]))"

text \<open>\<open>xs[i] = v\<close> on a JavaScript array: a write past the end extends the array, the holes
  reading as \<open>undefined\<close>.\<close>

definition arraySet :: "SquareState list \<Rightarrow> nat \<Rightarrow> SquareState \<Rightarrow> SquareState list" where
  "arraySet xs i v =
     (if i < length xs then xs[i := v] else xs @ replicate (i - length xs) None @ [v])"

text \<open>\<open>boardState[r][c]\<close>: a missing row is \<open>undefined\<close> and indexing it throws; a missing
  column of an existing row reads as \<open>undefined\<close>, which is falsy like \<open>null\<close>.\<close>

definition cellAt :: "BoardState \<Rightarrow> int \<Rightarrow> int \<Rightarrow> error + SquareState" where
  "cellAt boardState r c =
     (if 0 \<le> r \<and> r < int (length boardState) then
        (let rw = boardState ! nat r
         in Inr (if 0 \<le> c \<and> c < int (length rw) then rw ! nat c else None))
      else Inl TypeError)"

subsection \<open>Coordinate mapper\<close>

definition algebraicToIndices :: "string \<Rightarrow> AlgebraicMapping option" where
  "algebraicToIndices algebraic =
     (if length algebraic \<noteq> 2 then None
      else
        let file = algebraic ! 0;
            rankChar = algebraic ! 1;
            c = charCode file - charCode CHR ''a''
        in case parseInt rankChar of
             None \<Rightarrow> None
           | Some n \<Rightarrow>
               let r = 8 - n
               in if c < 0 \<or> c > 7 \<or> r < 0 \<or> r > 7 then None
                  else Some \<lparr>row = nat r, col = nat c\<rparr>)"

definition indicesToAlgebraic :: "int \<Rightarrow> int \<Rightarrow> string option" where
  "indicesToAlgebraic r c =
     (if r < 0 \<or> r > 7 \<or> c < 0 \<or> c > 7 then None
      else
        let file = [fromCharCode (charCode CHR ''a'' + c)];
            rank = toString (8 - r)
        in Some (file @ rank))"

subsection \<open>Position parser\<close>

text \<open>\<open>board[r][colIndex] = char\<close>: \<open>board[r]\<close> is \<open>undefined\<close> for a row index past the
  eight rows allocated, and the assignment then throws.\<close>

definition boardSet :: "BoardState \<Rightarrow> nat \<Rightarrow> nat \<Rightarrow> SquareState \<Rightarrow> error + BoardState" where
  "boardSet board r c v =
     (if r < length board then Inr (board[r := arraySet (board ! r) c v]) else Inl TypeError)"

text \<open>The inner loop over the characters of one rank string, from the current column.\<close>

fun fenRank :: "BoardState \<Rightarrow> nat \<Rightarrow> nat \<Rightarrow> string \<Rightarrow> error + BoardState" where
  "fenRank board r colIndex [] = Inr board"
| "fenRank board r colIndex (ch # rest) =
     (case parseInt ch of
        None \<Rightarrow>
          (if colIndex < 8 then
             (case boardSet board r colIndex (Some ch) of
                Inl e \<Rightarrow> Inl e
              | Inr board' \<Rightarrow> fenRank board' r (colIndex + 1) rest)
           else fenRank board r colIndex rest)
      | Some n \<Rightarrow> fenRank board r (colIndex + nat n) rest)"

text \<open>The outer loop over the rank strings, from row \<open>r\<close>.\<close>

fun fenRanks :: "BoardState \<Rightarrow> nat \<Rightarrow> string list \<Rightarrow> error + BoardState" where
  "fenRanks board r [] = Inr board"
| "fenRanks board r (rankStr # ranks) =
     (case fenRank board r 0 rankStr of
        Inl e \<Rightarrow> Inl e
      | Inr board' \<Rightarrow> fenRanks board' (r + 1) ranks)"

definition fenToBoard :: "string \<Rightarrow> error + BoardState" where
  "fenToBoard fenString =
     (let board = replicate 8 (replicate 8 None);
          piecePlacement = hd (split CHR '' '' fenString);
          ranks = split CHR ''/'' piecePlacement
      in fenRanks board 0 ranks)"

subsection \<open>Pseudo-legality\<close>

text \<open>The obstruction loop \<open>for (i = 1; i < n; i++) if (boardState[r0 + i*stepR][c0 + i*stepC])
  return false\<close>, over the list of the values \<open>i\<close> takes; \<open>Inr True\<close> when it runs through.\<close>

fun pathLoop :: "BoardState \<Rightarrow> int \<Rightarrow> int \<Rightarrow> int \<Rightarrow> int \<Rightarrow> nat list \<Rightarrow> error + bool" where
  "pathLoop boardState r0 c0 stepR stepC [] = Inr True"
| "pathLoop boardState r0 c0 stepR stepC (i # rest) =
     (case cellAt boardState (r0 + int i * stepR) (c0 + int i * stepC) of
        Inl e \<Rightarrow> Inl e
      | Inr (Some p) \<Rightarrow> Inr False
      | Inr None \<Rightarrow> pathLoop boardState r0 c0 stepR stepC rest)"

text \<open>The step \<open>dr / absDr\<close> is \<open>1\<close> or \<open>-1\<close> for a non-zero \<open>dr\<close>. For \<open>dr = 0\<close> JavaScript
  gives \<open>NaN\<close> and HOL gives \<open>0\<close>; the loop that would use it then runs from 1 to below 0,
  that is not at all, so the value is never read.\<close>

definition diagonalPath :: "BoardState \<Rightarrow> AlgebraicMapping \<Rightarrow> int \<Rightarrow> int \<Rightarrow> error + bool" where
  "diagonalPath boardState from dr dc =
     (let stepR = dr div \<bar>dr\<bar>; stepC = dc div \<bar>dc\<bar>
      in pathLoop boardState (int (row from)) (int (col from)) stepR stepC [1..<nat \<bar>dr\<bar>])"

definition straightPath :: "BoardState \<Rightarrow> AlgebraicMapping \<Rightarrow> int \<Rightarrow> int \<Rightarrow> error + bool" where
  "straightPath boardState from dr dc =
     (if dr = 0 then
        (let stepC = dc div \<bar>dc\<bar>
         in pathLoop boardState (int (row from)) (int (col from)) 0 stepC [1..<nat \<bar>dc\<bar>])
      else
        (let stepR = dr div \<bar>dr\<bar>
         in pathLoop boardState (int (row from)) (int (col from)) stepR 0 [1..<nat \<bar>dr\<bar>]))"

definition pawnCase ::
  "BoardState \<Rightarrow> AlgebraicMapping \<Rightarrow> AlgebraicMapping \<Rightarrow> bool \<Rightarrow> int \<Rightarrow> int \<Rightarrow> error + bool" where
  "pawnCase boardState from to pieceIsWhite dr dc =
     (let moveDir = (if pieceIsWhite then - 1 else 1)
      in if dc = 0 then
           (case cellAt boardState (int (row to)) (int (col to)) of
              Inl e \<Rightarrow> Inl e
            | Inr (Some p) \<Rightarrow> Inr False
            | Inr None \<Rightarrow>
                if dr = moveDir then Inr True
                else if dr = 2 * moveDir then
                  (let startingRank = (if pieceIsWhite then 6 else 1)
                   in if int (row from) = startingRank then
                        (case cellAt boardState (int (row from) + moveDir) (int (col from)) of
                           Inl e \<Rightarrow> Inl e
                         | Inr sq \<Rightarrow> Inr (sq = None))
                      else Inr False)
                else Inr False)
         else if \<bar>dc\<bar> = 1 \<and> dr = moveDir then
           (case cellAt boardState (int (row to)) (int (col to)) of
              Inl e \<Rightarrow> Inl e
            | Inr sq \<Rightarrow> Inr (sq \<noteq> None))
         else Inr False)"

definition pieceCase ::
  "BoardState \<Rightarrow> AlgebraicMapping \<Rightarrow> AlgebraicMapping \<Rightarrow> char \<Rightarrow> bool \<Rightarrow> error + bool" where
  "pieceCase boardState from to piece pieceIsWhite =
     (let dr = int (row to) - int (row from);
          dc = int (col to) - int (col from);
          absDr = \<bar>dr\<bar>;
          absDc = \<bar>dc\<bar>;
          kind = toLowerCase piece
      in if kind = CHR ''p'' then pawnCase boardState from to pieceIsWhite dr dc
         else if kind = CHR ''n'' then
           Inr ((absDr = 2 \<and> absDc = 1) \<or> (absDr = 1 \<and> absDc = 2))
         else if kind = CHR ''b'' then
           (if absDr \<noteq> absDc then Inr False else diagonalPath boardState from dr dc)
         else if kind = CHR ''r'' then
           (if dr \<noteq> 0 \<and> dc \<noteq> 0 then Inr False else straightPath boardState from dr dc)
         else if kind = CHR ''q'' then
           (if absDr = absDc then diagonalPath boardState from dr dc
            else if dr = 0 \<or> dc = 0 then straightPath boardState from dr dc
            else Inr False)
         else if kind = CHR ''k'' then Inr (absDr \<le> 1 \<and> absDc \<le> 1)
         else Inr False)"

definition isValidMove :: "BoardState \<Rightarrow> string \<Rightarrow> string \<Rightarrow> PlayerTurn \<Rightarrow> error + bool" where
  "isValidMove boardState fromAlgebraic toAlgebraic playerTurn =
     (case algebraicToIndices fromAlgebraic of
        None \<Rightarrow> Inr False
      | Some from \<Rightarrow>
     (case algebraicToIndices toAlgebraic of
        None \<Rightarrow> Inr False
      | Some to \<Rightarrow>
     (case cellAt boardState (int (row from)) (int (col from)) of
        Inl e \<Rightarrow> Inl e
      | Inr None \<Rightarrow> Inr False
      | Inr (Some piece) \<Rightarrow>
          let pieceIsWhite = equalsUpperCase piece
          in if (playerTurn = Turn_w \<and> \<not> pieceIsWhite) \<or> (playerTurn = Turn_b \<and> pieceIsWhite)
             then Inr False
             else
               (case cellAt boardState (int (row to)) (int (col to)) of
                  Inl e \<Rightarrow> Inl e
                | Inr destPiece \<Rightarrow>
                    if (case destPiece of
                          None \<Rightarrow> False
                        | Some d \<Rightarrow>
                            let destPieceIsWhite = equalsUpperCase d
                            in (playerTurn = Turn_w \<and> destPieceIsWhite)
                               \<or> (playerTurn = Turn_b \<and> \<not> destPieceIsWhite))
                    then Inr False
                    else pieceCase boardState from to piece pieceIsWhite))))"

subsection \<open>Applying a move\<close>

text \<open>\<open>makeMove\<close> copies the grid and its rows and then assigns into the copies. Whether the
  caller's board is touched depends on which arrays are shared, so the arrays live in a
  store: a reference is a position in the store, a row object is an array of cells, a grid
  object an array of row references. A board is a reference to a grid object.\<close>

record store =
  rowObjs :: "SquareState list list"
  gridObjs :: "nat list list"

definition newRow :: "SquareState list \<Rightarrow> store \<Rightarrow> nat \<times> store" where
  "newRow cells s = (length (rowObjs s), s\<lparr>rowObjs := rowObjs s @ [cells]\<rparr>)"

definition newGrid :: "nat list \<Rightarrow> store \<Rightarrow> nat \<times> store" where
  "newGrid refs s = (length (gridObjs s), s\<lparr>gridObjs := gridObjs s @ [refs]\<rparr>)"

text \<open>\<open>rows.map(row => [...row])\<close>: one fresh row object per element, holding a copy of the
  cells of the row it refers to.\<close>

fun copyRows :: "nat list \<Rightarrow> store \<Rightarrow> nat list \<times> store" where
  "copyRows [] s = ([], s)"
| "copyRows (a # rest) s =
     (case newRow (rowObjs s ! a) s of
        (a', s1) \<Rightarrow> (case copyRows rest s1 of (rest', s2) \<Rightarrow> (a' # rest', s2)))"

text \<open>\<open>grid[i]\<close>, about to be indexed again: \<open>undefined\<close> past the end, and then a throw.\<close>

definition gridRow :: "store \<Rightarrow> nat \<Rightarrow> nat \<Rightarrow> error + nat" where
  "gridRow s g i =
     (let refs = gridObjs s ! g in if i < length refs then Inr (refs ! i) else Inl TypeError)"

definition rowGet :: "store \<Rightarrow> nat \<Rightarrow> nat \<Rightarrow> SquareState" where
  "rowGet s a i = (let cells = rowObjs s ! a in if i < length cells then cells ! i else None)"

definition rowSet :: "store \<Rightarrow> nat \<Rightarrow> nat \<Rightarrow> SquareState \<Rightarrow> store" where
  "rowSet s a i v = s\<lparr>rowObjs := (rowObjs s)[a := arraySet (rowObjs s ! a) i v]\<rparr>"

text \<open>The result is the store after the call and the reference returned. The message
  written to the console on the fallback path is not part of the store.\<close>

definition makeMove :: "store \<Rightarrow> nat \<Rightarrow> string \<Rightarrow> string \<Rightarrow> error + (store \<times> nat)" where
  "makeMove s boardState fromAlgebraic toAlgebraic =
     (case algebraicToIndices fromAlgebraic of
        None \<Rightarrow> Inr (s, boardState)
      | Some from \<Rightarrow>
     (case algebraicToIndices toAlgebraic of
        None \<Rightarrow> Inr (s, boardState)
      | Some to \<Rightarrow>
     (case copyRows (gridObjs s ! boardState) s of
        (copies, s1) \<Rightarrow>
     (case newGrid copies s1 of
        (newBoardState, s2) \<Rightarrow>
     (case gridRow s2 newBoardState (row from) of
        Inl e \<Rightarrow> Inl e
      | Inr fromRow \<Rightarrow>
          let piece = rowGet s2 fromRow (col from)
          in (case gridRow s2 newBoardState (row to) of
                Inl e \<Rightarrow> Inl e
              | Inr toRow \<Rightarrow>
                  let s3 = rowSet s2 toRow (col to) piece
                  in (case gridRow s3 newBoardState (row from) of
                        Inl e \<Rightarrow> Inl e
                      | Inr fromRow' \<Rightarrow>
                          Inr (rowSet s3 fromRow' (col from) None, newBoardState))))))))"

text \<open>The board a reference denotes in a store, as a value.\<close>

definition boardOf :: "store \<Rightarrow> nat \<Rightarrow> BoardState" where
  "boardOf s g = map (\<lambda>a. rowObjs s ! a) (gridObjs s ! g)"

text \<open>A reference the program can hold: it points at a grid object whose elements point at
  row objects.\<close>

definition validRef :: "store \<Rightarrow> nat \<Rightarrow> bool" where
  "validRef s g \<longleftrightarrow>
     g < length (gridObjs s) \<and> list_all (\<lambda>a. a < length (rowObjs s)) (gridObjs s ! g)"

subsection \<open>Vocabulary of the properties\<close>

text \<open>A board is an 8x8 grid.\<close>

definition wfBoard :: "BoardState \<Rightarrow> bool" where
  "wfBoard b \<longleftrightarrow> length b = 8 \<and> list_all (\<lambda>rw. length rw = 8) b"

text \<open>A valid algebraic square: a letter a..h followed by a digit 1..8.\<close>

definition validSquare :: "string \<Rightarrow> bool" where
  "validSquare sq \<longleftrightarrow>
     length sq = 2 \<and> sq ! 0 \<in> set ''abcdefgh'' \<and> sq ! 1 \<in> set ''12345678''"

definition at :: "BoardState \<Rightarrow> AlgebraicMapping \<Rightarrow> SquareState" where
  "at b sq = b ! row sq ! col sq"

text \<open>The colour of a piece code is its case: upper case moves when the turn is \<open>w\<close>.\<close>

definition ownPiece :: "PlayerTurn \<Rightarrow> char \<Rightarrow> bool" where
  "ownPiece turn p \<longleftrightarrow>
     (turn = Turn_w \<and> equalsUpperCase p) \<or> (turn = Turn_b \<and> \<not> equalsUpperCase p)"

definition friendlyAt :: "BoardState \<Rightarrow> PlayerTurn \<Rightarrow> AlgebraicMapping \<Rightarrow> bool" where
  "friendlyAt b turn sq = (case at b sq of None \<Rightarrow> False | Some p \<Rightarrow> ownPiece turn p)"

text \<open>The piece code of a kind for the side to move. A kind is one of the lower-case
  letters p, n, b, r, q, k; its upper-case letter has the code 32 below.\<close>

definition pieceOf :: "PlayerTurn \<Rightarrow> char \<Rightarrow> char" where
  "pieceOf turn kind =
     (case turn of Turn_w \<Rightarrow> fromCharCode (charCode kind - 32) | Turn_b \<Rightarrow> kind)"

definition forwardDir :: "PlayerTurn \<Rightarrow> int" where
  "forwardDir turn = (case turn of Turn_w \<Rightarrow> - 1 | Turn_b \<Rightarrow> 1)"

definition startRow :: "PlayerTurn \<Rightarrow> nat" where
  "startRow turn = (case turn of Turn_w \<Rightarrow> 6 | Turn_b \<Rightarrow> 1)"

text \<open>The squares strictly between two squares of a rank, file or diagonal, as (row, column)
  pairs walking from the first square towards the second.\<close>

definition squaresBetween :: "AlgebraicMapping \<Rightarrow> AlgebraicMapping \<Rightarrow> (nat \<times> nat) list" where
  "squaresBetween from to =
     (let dr = int (row to) - int (row from);
          dc = int (col to) - int (col from)
      in map (\<lambda>i. (nat (int (row from) + int i * sgn dr), nat (int (col from) + int i * sgn dc)))
           [1..<nat (max \<bar>dr\<bar> \<bar>dc\<bar>)])"

definition pathEmpty :: "BoardState \<Rightarrow> AlgebraicMapping \<Rightarrow> AlgebraicMapping \<Rightarrow> bool" where
  "pathEmpty b from to = list_all (\<lambda>(r, c). b ! r ! c = None) (squaresBetween from to)"

definition bishopLine :: "int \<Rightarrow> int \<Rightarrow> bool" where
  "bishopLine dr dc \<longleftrightarrow> \<bar>dr\<bar> = \<bar>dc\<bar> \<and> 0 < \<bar>dr\<bar>"

definition rookLine :: "int \<Rightarrow> int \<Rightarrow> bool" where
  "rookLine dr dc \<longleftrightarrow> (dr = 0 \<and> dc \<noteq> 0) \<or> (dr \<noteq> 0 \<and> dc = 0)"

definition lineOf :: "char \<Rightarrow> int \<Rightarrow> int \<Rightarrow> bool" where
  "lineOf kind dr dc =
     (if kind = CHR ''b'' then bishopLine dr dc
      else if kind = CHR ''r'' then rookLine dr dc
      else if kind = CHR ''q'' then bishopLine dr dc \<or> rookLine dr dc
      else False)"

text \<open>The board with the cell of one square replaced.\<close>

definition withPiece :: "BoardState \<Rightarrow> AlgebraicMapping \<Rightarrow> char \<Rightarrow> BoardState" where
  "withPiece b sq p = b[row sq := (b ! row sq)[col sq := Some p]]"

subsection \<open>Example positions\<close>

text \<open>The initial position.\<close>

definition startBoard :: BoardState where
  "startBoard =
     [map Some ''rnbqkbnr'', map Some ''pppppppp'',
      replicate 8 None, replicate 8 None, replicate 8 None, replicate 8 None,
      map Some ''PPPPPPPP'', map Some ''RNBQKBNR'']"

text \<open>An open position: white queen d4, white pawn d2, white king e1; black rook a4, black
  pawn d6, black bishop g7, black king e8.\<close>

definition openBoard :: BoardState where
  "openBoard =
     [[None, None, None, None, Some CHR ''k'', None, None, None],
      [None, None, None, None, None, None, Some CHR ''b'', None],
      [None, None, None, Some CHR ''p'', None, None, None, None],
      replicate 8 None,
      [Some CHR ''r'', None, None, Some CHR ''Q'', None, None, None, None],
      replicate 8 None,
      [None, None, None, Some CHR ''P'', None, None, None, None],
      [None, None, None, None, Some CHR ''K'', None, None, None]]"

text \<open>A position the parser returns for a malformed description, with the character U+00E9
  (lower-case e with acute, whose upper case is U+00C9) on a8 and b6; white king b7, black
  pawn c7, white rook a1.\<close>

definition latinBoard :: BoardState where
  "latinBoard =
     [[Some (CHR 0xE9), None, None, None, None, None, None, None],
      [None, Some CHR ''K'', Some CHR ''p'', None, None, None, None, None],
      [None, Some (CHR 0xE9), None, None, None, None, None, None],
      replicate 8 None, replicate 8 None, replicate 8 None, replicate 8 None,
      [Some CHR ''R'', None, None, None, None, None, None, None]]"

text \<open>A store holding the initial position: eight row objects and one grid object.\<close>

definition startStore :: store where
  "startStore = \<lparr>rowObjs = startBoard, gridObjs = [[0, 1, 2, 3, 4, 5, 6, 7]]\<rparr>"

section \<open>Coordinate mapper: round trip\<close>

lemma charCode_inject: "charCode a = charCode b \<longleftrightarrow> a = b"
  by (simp add: charCode_def)

lemma charCode_mem: "ch \<in> S \<longleftrightarrow> charCode ch \<in> charCode ` S"
  by (auto simp: charCode_inject)

lemma code_range_97:
  "(x::int) \<in> {97, 98, 99, 100, 101, 102, 103, 104} \<longleftrightarrow> 97 \<le> x \<and> x \<le> 104"
  by auto

lemma code_range_49:
  "(x::int) \<in> {49, 50, 51, 52, 53, 54, 55, 56} \<longleftrightarrow> 49 \<le> x \<and> x \<le> 56"
  by auto

lemma file_char_iff:
  "ch \<in> set ''abcdefgh'' \<longleftrightarrow> 97 \<le> charCode ch \<and> charCode ch \<le> 104"
proof -
  have "charCode ` set ''abcdefgh'' = {97, 98, 99, 100, 101, 102, 103, 104}"
    by (simp add: charCode_def)
  then show ?thesis
    using charCode_mem[of ch "set ''abcdefgh''"] code_range_97[of "charCode ch"]
    by (simp only:)
qed

lemma rank_char_iff:
  "ch \<in> set ''12345678'' \<longleftrightarrow> 49 \<le> charCode ch \<and> charCode ch \<le> 56"
proof -
  have "charCode ` set ''12345678'' = {49, 50, 51, 52, 53, 54, 55, 56}"
    by (simp add: charCode_def)
  then show ?thesis
    using charCode_mem[of ch "set ''12345678''"] code_range_49[of "charCode ch"]
    by (simp only:)
qed

lemma charCode_a: "charCode CHR ''a'' = 97"
  by (simp add: charCode_def)

lemma algebraicToIndices_pair:
  "algebraicToIndices [f, k] =
     (if 97 \<le> charCode f \<and> charCode f \<le> 104 \<and> 49 \<le> charCode k \<and> charCode k \<le> 56
      then Some \<lparr>row = nat (56 - charCode k), col = nat (charCode f - 97)\<rparr> else None)"
  by (simp add: algebraicToIndices_def parseInt_def Let_def charCode_a)

lemma length_two: "length s = 2 \<longleftrightarrow> (\<exists>f k. s = [f, k])"
  by (cases s; cases "tl s") auto

lemma validSquare_pair:
  "validSquare s \<longleftrightarrow>
     (\<exists>f k. s = [f, k] \<and> 97 \<le> charCode f \<and> charCode f \<le> 104
            \<and> 49 \<le> charCode k \<and> charCode k \<le> 56)"
  unfolding validSquare_def length_two file_char_iff rank_char_iff by auto

lemma algebraicToIndices_None: "algebraicToIndices s = None \<longleftrightarrow> \<not> validSquare s"
proof (cases "length s = 2")
  case True
  then obtain f k where "s = [f, k]" unfolding length_two by blast
  then show ?thesis by (simp add: algebraicToIndices_pair validSquare_pair)
next
  case False
  then show ?thesis by (simp add: algebraicToIndices_def validSquare_def)
qed

lemma algebraicToIndices_range:
  assumes "algebraicToIndices s = Some m"
  shows "row m < 8 \<and> col m < 8"
proof -
  from assms have "validSquare s" using algebraicToIndices_None[of s] by simp
  then obtain f k where s: "s = [f, k]" and
    b: "97 \<le> charCode f" "charCode f \<le> 104" "49 \<le> charCode k" "charCode k \<le> 56"
    unfolding validSquare_pair by blast
  with assms have "m = \<lparr>row = nat (56 - charCode k), col = nat (charCode f - 97)\<rparr>"
    by (simp add: algebraicToIndices_pair)
  with b show ?thesis by auto
qed

lemma fromCharCode_charCode: "fromCharCode (charCode ch) = ch"
  by (simp add: fromCharCode_def charCode_def)

lemma charCode_fromCharCode: "0 \<le> n \<Longrightarrow> n < 256 \<Longrightarrow> charCode (fromCharCode n) = n"
  by (simp add: fromCharCode_def charCode_def)

lemma toString_digit: "0 \<le> n \<Longrightarrow> n < 10 \<Longrightarrow> toString n = [fromCharCode (48 + n)]"
  by (simp add: toString_def)

lemma indicesToAlgebraic_in_range:
  assumes "0 \<le> r" "r \<le> 7" "0 \<le> c" "c \<le> 7"
  shows "indicesToAlgebraic r c = Some [fromCharCode (97 + c), fromCharCode (56 - r)]"
proof -
  have "toString (8 - r) = [fromCharCode (48 + (8 - r))]"
    using assms by (intro toString_digit) auto
  moreover have "48 + (8 - r) = 56 - r" by simp
  ultimately show ?thesis
    using assms by (simp add: indicesToAlgebraic_def charCode_a)
qed

lemma validSquare_set:
  "{s. validSquare s} = (\<lambda>(f, k). [f, k]) ` (set ''abcdefgh'' \<times> set ''12345678'')"
  unfolding validSquare_def length_two
  by (auto simp only: nth_Cons_0 nth_Cons_Suc One_nat_def image_iff mem_Sigma_iff
        mem_Collect_eq split: prod.splits)

lemma validSquare_count: "card {s. validSquare s} = 64"
proof -
  have "inj_on (\<lambda>(f, k). [f, k]) (set ''abcdefgh'' \<times> set ''12345678'')"
    by (auto simp: inj_on_def)
  then have "card {s. validSquare s} = card (set ''abcdefgh'' \<times> set ''12345678'')"
    unfolding validSquare_set by (rule card_image)
  also have "\<dots> = card (set ''abcdefgh'') * card (set ''12345678'')"
    by (rule card_cartesian_product)
  also have "\<dots> = 64"
    by (simp add: card_insert_if)
  finally show ?thesis .
qed

lemma algebraicToIndices_back:
  assumes "algebraicToIndices sq = Some m"
  shows "sq = [fromCharCode (97 + int (col m)), fromCharCode (56 - int (row m))]"
proof -
  from assms have "validSquare sq" using algebraicToIndices_None[of sq] by simp
  then obtain f k where s: "sq = [f, k]" and
    b: "97 \<le> charCode f" "charCode f \<le> 104" "49 \<le> charCode k" "charCode k \<le> 56"
    unfolding validSquare_pair by blast
  with assms have "m = \<lparr>row = nat (56 - charCode k), col = nat (charCode f - 97)\<rparr>"
    by (simp add: algebraicToIndices_pair)
  with b have "97 + int (col m) = charCode f" "56 - int (row m) = charCode k" by auto
  then show ?thesis by (simp add: s fromCharCode_charCode)
qed

lemma algebraicToIndices_inj:
  "algebraicToIndices f = Some m \<Longrightarrow> algebraicToIndices t = Some m \<Longrightarrow> f = t"
  using algebraicToIndices_back[of f m] algebraicToIndices_back[of t m] by simp

text \<open>
  C5. \<open>algebraicToIndices\<close> and \<open>indicesToAlgebraic\<close> are inverse to each other on the valid
  domain. For every valid square \<open>s\<close> (a letter a..h followed by a digit 1..8; there are 64
  of them), \<open>algebraicToIndices s\<close> succeeds and \<open>indicesToAlgebraic\<close> of its row and column
  is \<open>s\<close> again; for every row and column in 0..7, \<open>indicesToAlgebraic\<close> succeeds and
  \<open>algebraicToIndices\<close> of its result is exactly that row and column.
\<close>

theorem coordinates_round_trip:
  "(validSquare s \<longrightarrow>
      (\<exists>m. algebraicToIndices s = Some m
           \<and> indicesToAlgebraic (int (row m)) (int (col m)) = Some s))
   \<and> (0 \<le> r \<and> r \<le> 7 \<and> 0 \<le> c \<and> c \<le> 7 \<longrightarrow>
      (\<exists>a. indicesToAlgebraic r c = Some a
           \<and> algebraicToIndices a = Some \<lparr>row = nat r, col = nat c\<rparr>))
   \<and> card {sq. validSquare sq} = 64"
proof (intro conjI impI)
  assume "validSquare s"
  then obtain f k where s: "s = [f, k]" and
    b: "97 \<le> charCode f" "charCode f \<le> 104" "49 \<le> charCode k" "charCode k \<le> 56"
    unfolding validSquare_pair by blast
  define m where "m = \<lparr>row = nat (56 - charCode k), col = nat (charCode f - 97)\<rparr>"
  have 1: "algebraicToIndices s = Some m"
    using b by (simp add: s m_def algebraicToIndices_pair)
  have "indicesToAlgebraic (56 - charCode k) (charCode f - 97)
          = Some [fromCharCode (97 + (charCode f - 97)), fromCharCode (56 - (56 - charCode k))]"
    using b by (intro indicesToAlgebraic_in_range) auto
  then have "indicesToAlgebraic (56 - charCode k) (charCode f - 97) = Some s"
    by (simp add: s fromCharCode_charCode)
  moreover have "int (row m) = 56 - charCode k" "int (col m) = charCode f - 97"
    using b by (auto simp: m_def)
  ultimately have 2: "indicesToAlgebraic (int (row m)) (int (col m)) = Some s"
    by simp
  from 1 2 show "\<exists>m. algebraicToIndices s = Some m
           \<and> indicesToAlgebraic (int (row m)) (int (col m)) = Some s"
    by blast
next
  assume a: "0 \<le> r \<and> r \<le> 7 \<and> 0 \<le> c \<and> c \<le> 7"
  then have 1: "indicesToAlgebraic r c = Some [fromCharCode (97 + c), fromCharCode (56 - r)]"
    by (intro indicesToAlgebraic_in_range) auto
  have "charCode (fromCharCode (97 + c)) = 97 + c" "charCode (fromCharCode (56 - r)) = 56 - r"
    using a by (auto intro: charCode_fromCharCode)
  then have 2: "algebraicToIndices [fromCharCode (97 + c), fromCharCode (56 - r)]
                  = Some \<lparr>row = nat r, col = nat c\<rparr>"
    using a by (simp add: algebraicToIndices_pair)
  from 1 2 show "\<exists>a. indicesToAlgebraic r c = Some a
           \<and> algebraicToIndices a = Some \<lparr>row = nat r, col = nat c\<rparr>"
    by blast
next
  show "card {sq. validSquare sq} = 64" by (rule validSquare_count)
qed

theorem coordinates_round_trip_witness:
  "validSquare ''e2'' \<and> algebraicToIndices ''e2'' = Some \<lparr>row = 6, col = 4\<rparr>
   \<and> indicesToAlgebraic 6 4 = Some ''e2''"
  using coordinates_round_trip [of "''e2''" 6 4]
  by (simp add: validSquare_def algebraicToIndices_def parseInt_def charCode_def)

section \<open>Position parser\<close>

lemma split_nonempty: "split d s \<noteq> []"
  by (induction s) (auto split: list.splits)

lemma split_hd: "hd (split d s) = takeWhile (\<lambda>c. c \<noteq> d) s"
  using split_nonempty[of d] by (induction s) (auto split: list.splits)

lemma boardSet_wf:
  "wfBoard b \<Longrightarrow> r < 8 \<Longrightarrow> c < 8 \<Longrightarrow> \<exists>b'. boardSet b r c v = Inr b' \<and> wfBoard b'"
  by (auto simp: boardSet_def arraySet_def wfBoard_def list_all_length nth_list_update)

lemma fenRank_wf:
  "wfBoard b \<Longrightarrow> r < 8 \<Longrightarrow> \<exists>b'. fenRank b r c str = Inr b' \<and> wfBoard b'"
proof (induction str arbitrary: b c)
  case Nil
  then show ?case by simp
next
  case (Cons ch rest)
  show ?case
  proof (cases "parseInt ch")
    case (Some n)
    then show ?thesis using Cons by simp
  next
    case None
    show ?thesis
    proof (cases "c < 8")
      case True
      then obtain b1 where b1: "boardSet b r c (Some ch) = Inr b1" "wfBoard b1"
        using boardSet_wf[OF Cons.prems] by blast
      then show ?thesis using None True Cons.IH[OF b1(2) Cons.prems(2)] by simp
    next
      case False
      then show ?thesis using None Cons by simp
    qed
  qed
qed

lemma fenRanks_wf:
  "wfBoard b \<Longrightarrow> r + length ranks \<le> 8 \<Longrightarrow> \<exists>b'. fenRanks b r ranks = Inr b' \<and> wfBoard b'"
proof (induction ranks arbitrary: b r)
  case Nil
  then show ?case by simp
next
  case (Cons rankStr ranks)
  then have "r < 8" by simp
  then obtain b1 where b1: "fenRank b r 0 rankStr = Inr b1" "wfBoard b1"
    using fenRank_wf[OF Cons.prems(1)] by blast
  have "Suc r + length ranks \<le> 8" using Cons.prems(2) by simp
  from Cons.IH[OF b1(2) this] b1(1) show ?case by simp
qed

lemma wfBoard_empty: "wfBoard (replicate 8 (replicate 8 None))"
  by (simp add: wfBoard_def list_all_length)

lemma fenToBoard_at_most_eight_ranks:
  assumes "length (split CHR ''/'' (takeWhile (\<lambda>c. c \<noteq> CHR '' '') fenString)) \<le> 8"
  shows "\<exists>b. fenToBoard fenString = Inr b \<and> wfBoard b"
  using fenRanks_wf[OF wfBoard_empty, of 0] assms
  by (simp add: fenToBoard_def split_hd)

lemma fenToBoard_start:
  "fenToBoard ''rnbqkbnr/pppppppp/8/8/8/8/PPPPPPPP/RNBQKBNR w KQkq - 0 1'' = Inr startBoard"
  by code_simp

text \<open>
  C4. The claim is that \<open>fenToBoard\<close> returns an 8x8 board for every input string and never
  faults, a rank count other than 8 included. With at most eight rank strings it does, as
  shown above. The loop over the rank strings has no bound on the row index,
  though, while the write is guarded only on the column: a ninth rank string holding a
  piece character assigns into \<open>board[8]\<close>, which is \<open>undefined\<close>, and the call throws.
\<close>

theorem fenToBoard_ninth_rank_throws:
  "fenToBoard ''8/8/8/8/8/8/8/8/p'' = Inl TypeError"
  by code_simp

section \<open>Pseudo-legal moves\<close>

lemma wfBoard_row: "wfBoard b \<Longrightarrow> r < 8 \<Longrightarrow> length (b ! r) = 8"
  by (simp add: wfBoard_def list_all_length)

lemma cellAt_wf:
  "wfBoard b \<Longrightarrow> 0 \<le> r \<Longrightarrow> r < 8 \<Longrightarrow> 0 \<le> c \<Longrightarrow> c < 8 \<Longrightarrow> cellAt b r c = Inr (b ! nat r ! nat c)"
  by (simp add: cellAt_def wfBoard_def list_all_length)

lemma cellAt_sq:
  "wfBoard b \<Longrightarrow> row sq < 8 \<Longrightarrow> col sq < 8 \<Longrightarrow> cellAt b (int (row sq)) (int (col sq)) = Inr (at b sq)"
  by (simp add: cellAt_wf at_def)

text \<open>The checks before the dispatch on the piece kind.\<close>

lemma isValidMove_prefix:
  assumes "wfBoard b" "algebraicToIndices f = Some from" "algebraicToIndices t = Some to"
    and "at b from = Some p"
  shows "isValidMove b f t turn =
           (if \<not> ownPiece turn p \<or> friendlyAt b turn to then Inr False
            else pieceCase b from to p (equalsUpperCase p))"
proof -
  have r: "row from < 8" "col from < 8" "row to < 8" "col to < 8"
    using assms(2,3) algebraicToIndices_range by blast+
  have 1: "cellAt b (int (row from)) (int (col from)) = Inr (Some p)"
    using assms(1,4) r by (simp add: cellAt_sq)
  have 2: "cellAt b (int (row to)) (int (col to)) = Inr (at b to)"
    using assms(1) r by (simp add: cellAt_sq)
  show ?thesis
    unfolding isValidMove_def
    by (cases turn; cases "at b to")
       (simp_all add: assms(2,3) 1 2 ownPiece_def friendlyAt_def Let_def)
qed

lemma isValidMove_empty:
  assumes "wfBoard b" "algebraicToIndices f = Some from" "algebraicToIndices t = Some to"
    and "at b from = None"
  shows "isValidMove b f t turn = Inr False"
proof -
  have r: "row from < 8" "col from < 8"
    using assms(2) algebraicToIndices_range by blast+
  have 1: "cellAt b (int (row from)) (int (col from)) = Inr None"
    using assms(1,4) r by (simp add: cellAt_sq)
  show ?thesis
    unfolding isValidMove_def by (simp add: assms(2,3) 1)
qed

text \<open>
  C9. On every board, for every pair of valid squares and every side to move: when the
  source cell holds a piece whose colour, read off its case, is not the side to move (turn
  \<open>w\<close> and the piece differs from its upper-case form, or turn \<open>b\<close> and the piece equals
  its upper-case form), \<open>isValidMove\<close> returns false, whatever the kind of the piece and
  whatever the destination.
\<close>

theorem turn_ownership:
  assumes "wfBoard b" "algebraicToIndices f = Some from" "algebraicToIndices t = Some to"
    and "at b from = Some p"
    and "(turn = Turn_w \<and> \<not> equalsUpperCase p) \<or> (turn = Turn_b \<and> equalsUpperCase p)"
  shows "isValidMove b f t turn = Inr False"
  using assms(5) isValidMove_prefix[OF assms(1-4), of turn]
  by (auto simp: ownPiece_def)

theorem turn_ownership_witness:
  "isValidMove startBoard ''e7'' ''e5'' Turn_w = Inr False
   \<and> isValidMove startBoard ''e2'' ''e4'' Turn_b = Inr False"
proof -
  have h1: "wfBoard startBoard" by code_simp
  have e2: "algebraicToIndices ''e2'' = Some \<lparr>row = 6, col = 4\<rparr>" by code_simp
  have e4: "algebraicToIndices ''e4'' = Some \<lparr>row = 4, col = 4\<rparr>" by code_simp
  have e7: "algebraicToIndices ''e7'' = Some \<lparr>row = 1, col = 4\<rparr>" by code_simp
  have e5: "algebraicToIndices ''e5'' = Some \<lparr>row = 3, col = 4\<rparr>" by code_simp
  have p7: "at startBoard \<lparr>row = 1, col = 4\<rparr> = Some CHR ''p''" by code_simp
  have p2: "at startBoard \<lparr>row = 6, col = 4\<rparr> = Some CHR ''P''" by code_simp
  have c7: "(Turn_w = Turn_w \<and> \<not> equalsUpperCase CHR ''p'')
              \<or> (Turn_w = Turn_b \<and> equalsUpperCase CHR ''p'')" by code_simp
  have c2: "(Turn_b = Turn_w \<and> \<not> equalsUpperCase CHR ''P'')
              \<or> (Turn_b = Turn_b \<and> equalsUpperCase CHR ''P'')" by code_simp
  show ?thesis
    using turn_ownership[OF h1 e7 e5 p7 c7] turn_ownership[OF h1 e2 e4 p2 c2] by simp
qed

lemma upper_codes:
  "\<not> equalsUpperCase CHR ''p''" "\<not> equalsUpperCase CHR ''n''"
  "\<not> equalsUpperCase CHR ''b''" "\<not> equalsUpperCase CHR ''r''"
  "\<not> equalsUpperCase CHR ''q''" "\<not> equalsUpperCase CHR ''k''"
  "equalsUpperCase CHR ''P''" "equalsUpperCase CHR ''N''"
  "equalsUpperCase CHR ''B''" "equalsUpperCase CHR ''R''"
  "equalsUpperCase CHR ''Q''" "equalsUpperCase CHR ''K''"
  by code_simp+

lemma upper_pieces:
  "fromCharCode (charCode CHR ''p'' - 32) = CHR ''P''"
  "fromCharCode (charCode CHR ''n'' - 32) = CHR ''N''"
  "fromCharCode (charCode CHR ''b'' - 32) = CHR ''B''"
  "fromCharCode (charCode CHR ''r'' - 32) = CHR ''R''"
  "fromCharCode (charCode CHR ''q'' - 32) = CHR ''Q''"
  "fromCharCode (charCode CHR ''k'' - 32) = CHR ''K''"
  by code_simp+

lemma lower_codes:
  "toLowerCase CHR ''p'' = CHR ''p''" "toLowerCase CHR ''n'' = CHR ''n''"
  "toLowerCase CHR ''b'' = CHR ''b''" "toLowerCase CHR ''r'' = CHR ''r''"
  "toLowerCase CHR ''q'' = CHR ''q''" "toLowerCase CHR ''k'' = CHR ''k''"
  "toLowerCase CHR ''P'' = CHR ''p''" "toLowerCase CHR ''N'' = CHR ''n''"
  "toLowerCase CHR ''B'' = CHR ''b''" "toLowerCase CHR ''R'' = CHR ''r''"
  "toLowerCase CHR ''Q'' = CHR ''q''" "toLowerCase CHR ''K'' = CHR ''k''"
  by code_simp+

lemma pieceOf_facts:
  assumes "kind \<in> set ''pnbrqk''"
  shows "ownPiece turn (pieceOf turn kind)"
    and "toLowerCase (pieceOf turn kind) = kind"
    and "equalsUpperCase (pieceOf turn kind) = (turn = Turn_w)"
  using assms
  by (cases turn; auto simp: pieceOf_def ownPiece_def upper_codes upper_pieces lower_codes)+

text \<open>A cell holding U+00E9 is a lower-case piece, as in the code: the side \<open>b\<close> may not
  capture it and the side \<open>w\<close> may.\<close>

lemma latin1_upper_case:
  "toUpperCase (CHR 0xE9) = [201]" "\<not> equalsUpperCase (CHR 0xE9)"
  "toUpperCase (CHR 0xDF) = [83, 83]" "toUpperCase (CHR 0xB5) = [924]"
  "toUpperCase (CHR 0xFF) = [376]" "toUpperCase (CHR 0xF7) = [247]"
  by code_simp+

lemma latin1_parsed:
  "fenToBoard [CHR 0xE9, CHR ''/'', CHR ''1'', CHR ''K'', CHR ''p'', CHR ''/'', CHR ''1'',
               CHR 0xE9, CHR ''/'', CHR ''8'', CHR ''/'', CHR ''8'', CHR ''/'', CHR ''8'',
               CHR ''/'', CHR ''8'', CHR ''/'', CHR ''R'']
     = Inr latinBoard"
  by code_simp

lemma latin1_destination:
  "isValidMove latinBoard ''c7'' ''b6'' Turn_b = Inr False"
  "isValidMove (withPiece latinBoard \<lparr>row = 7, col = 0\<rparr> CHR ''r'') ''a1'' ''a8'' Turn_b
     = Inr False"
  "isValidMove latinBoard ''a1'' ''a8'' Turn_w = Inr True"
  "isValidMove latinBoard ''b7'' ''a8'' Turn_w = Inr True"
  by code_simp+

text \<open>
  C10. On every board, for every side to move and every valid square, the null move from
  the square to itself is rejected: \<open>isValidMove\<close> returns false. The dispatch on the piece
  kind would accept the zero delta for a rook, a queen and a king of the side to move; the
  move does not get there, because an empty source fails the piece check and an occupied
  source makes the destination a piece of the same side.
\<close>

theorem null_move_rejected:
  assumes "wfBoard b" "algebraicToIndices sq = Some m"
  shows "isValidMove b sq sq turn = Inr False
       \<and> (\<forall>kind \<in> set ''rqk''. pieceCase b m m (pieceOf turn kind) (turn = Turn_w) = Inr True)"
proof
  show "isValidMove b sq sq turn = Inr False"
  proof (cases "at b m")
    case None
    then show ?thesis using isValidMove_empty[OF assms(1,2,2)] by simp
  next
    case (Some p)
    then show ?thesis
      using isValidMove_prefix[OF assms(1,2,2) Some, of turn]
      by (simp add: friendlyAt_def)
  qed
next
  have "pieceCase b m m (pieceOf turn kind) (turn = Turn_w) = Inr True"
    if "kind \<in> set ''rqk''" for kind
  proof -
    from that have "kind \<in> set ''pnbrqk''" by auto
    then have "toLowerCase (pieceOf turn kind) = kind" by (rule pieceOf_facts(2))
    with that show ?thesis
      by (auto simp: pieceCase_def diagonalPath_def straightPath_def)
  qed
  then show "\<forall>kind \<in> set ''rqk''.
               pieceCase b m m (pieceOf turn kind) (turn = Turn_w) = Inr True"
    by blast
qed

theorem null_move_rejected_witness:
  "isValidMove startBoard ''a1'' ''a1'' Turn_w = Inr False
   \<and> isValidMove startBoard ''e4'' ''e4'' Turn_w = Inr False
   \<and> pieceCase startBoard \<lparr>row = 7, col = 0\<rparr> \<lparr>row = 7, col = 0\<rparr> CHR ''R'' True = Inr True"
proof -
  have h1: "wfBoard startBoard" by code_simp
  have a1: "algebraicToIndices ''a1'' = Some \<lparr>row = 7, col = 0\<rparr>" by code_simp
  have e4: "algebraicToIndices ''e4'' = Some \<lparr>row = 4, col = 4\<rparr>" by code_simp
  have r: "pieceOf Turn_w CHR ''r'' = CHR ''R''" by code_simp
  show ?thesis
    using null_move_rejected[OF h1 a1, of Turn_w] null_move_rejected[OF h1 e4, of Turn_w] r
    by simp
qed

text \<open>Once the source holds a piece of the side to move, the verdict is that of the dispatch,
  unless the destination holds a piece of the same side.\<close>

lemma isValidMove_own:
  assumes "wfBoard b" "algebraicToIndices f = Some from" "algebraicToIndices t = Some to"
    and "kind \<in> set ''pnbrqk''" "at b from = Some (pieceOf turn kind)"
  shows "isValidMove b f t turn =
           (if friendlyAt b turn to then Inr False
            else pieceCase b from to (pieceOf turn kind) (turn = Turn_w))"
  using isValidMove_prefix[OF assms(1-3,5), of turn] pieceOf_facts[OF assms(4), of turn]
  by simp

lemma same_square:
  "int (row to) - int (row from) = 0 \<Longrightarrow> int (col to) - int (col from) = 0
     \<Longrightarrow> (to :: AlgebraicMapping) = from"
  by simp

text \<open>
  C7. On every board, for every side to move and valid squares \<open>f\<close> and \<open>t\<close> where \<open>f\<close> holds
  a king of the side to move, \<open>isValidMove\<close> returns true if and only if the destination
  does not hold a piece of the same side, \<open>|dr| \<le> 1\<close>, \<open>|dc| \<le> 1\<close>, and \<open>dr\<close> and \<open>dc\<close> are
  not both zero.
\<close>

theorem king_moves:
  assumes "wfBoard b" "algebraicToIndices f = Some from" "algebraicToIndices t = Some to"
    and "at b from = Some (pieceOf turn CHR ''k'')"
  shows "isValidMove b f t turn =
           Inr (\<not> friendlyAt b turn to
                \<and> \<bar>int (row to) - int (row from)\<bar> \<le> 1
                \<and> \<bar>int (col to) - int (col from)\<bar> \<le> 1
                \<and> \<not> (int (row to) - int (row from) = 0 \<and> int (col to) - int (col from) = 0))"
proof -
  have k: "CHR ''k'' \<in> set ''pnbrqk''" by simp
  have own: "ownPiece turn (pieceOf turn CHR ''k'')"
    and low: "toLowerCase (pieceOf turn CHR ''k'') = CHR ''k''"
    using pieceOf_facts[OF k] by blast+
  have null: "friendlyAt b turn to"
    if "int (row to) - int (row from) = 0 \<and> int (col to) - int (col from) = 0"
  proof -
    from that have "to = from" by simp
    then show ?thesis using assms(4) own by (simp add: friendlyAt_def)
  qed
  have "pieceCase b from to (pieceOf turn CHR ''k'') (turn = Turn_w) =
          Inr (\<bar>int (row to) - int (row from)\<bar> \<le> 1 \<and> \<bar>int (col to) - int (col from)\<bar> \<le> 1)"
    by (simp add: pieceCase_def low Let_def)
  then show ?thesis
    using isValidMove_own[OF assms(1-3) k assms(4)] null by auto
qed

theorem king_moves_witness:
  "isValidMove openBoard ''e1'' ''e2'' Turn_w = Inr True
   \<and> isValidMove openBoard ''e1'' ''e3'' Turn_w = Inr False
   \<and> isValidMove latinBoard ''b7'' ''a8'' Turn_w = Inr True"
proof -
  have h1: "wfBoard openBoard" and h2: "wfBoard latinBoard" by code_simp+
  have b7: "algebraicToIndices ''b7'' = Some \<lparr>row = 1, col = 1\<rparr>" by code_simp
  have a8: "algebraicToIndices ''a8'' = Some \<lparr>row = 0, col = 0\<rparr>" by code_simp
  have kl: "at latinBoard \<lparr>row = 1, col = 1\<rparr> = Some (pieceOf Turn_w CHR ''k'')" by code_simp
  have fl: "\<not> friendlyAt latinBoard Turn_w \<lparr>row = 0, col = 0\<rparr>" by code_simp
  have e1: "algebraicToIndices ''e1'' = Some \<lparr>row = 7, col = 4\<rparr>" by code_simp
  have e2: "algebraicToIndices ''e2'' = Some \<lparr>row = 6, col = 4\<rparr>" by code_simp
  have e3: "algebraicToIndices ''e3'' = Some \<lparr>row = 5, col = 4\<rparr>" by code_simp
  have k: "at openBoard \<lparr>row = 7, col = 4\<rparr> = Some (pieceOf Turn_w CHR ''k'')" by code_simp
  have f2: "\<not> friendlyAt openBoard Turn_w \<lparr>row = 6, col = 4\<rparr>" by code_simp
  show ?thesis
    unfolding king_moves[OF h1 e1 e2 k] king_moves[OF h1 e1 e3 k] king_moves[OF h2 b7 a8 kl]
    using f2 fl by simp
qed

lemma pawnCase_wf:
  assumes "wfBoard b" "row from < 8" "col from < 8" "row to < 8" "col to < 8"
  shows "pawnCase b from to (turn = Turn_w) dr dc =
           Inr ((dc = 0 \<and> dr = forwardDir turn \<and> at b to = None)
              \<or> (dc = 0 \<and> dr = 2 * forwardDir turn \<and> row from = startRow turn
                   \<and> b ! nat (int (row from) + forwardDir turn) ! col from = None
                   \<and> at b to = None)
              \<or> (\<bar>dc\<bar> = 1 \<and> dr = forwardDir turn \<and> at b to \<noteq> None))"
proof -
  have dest: "cellAt b (int (row to)) (int (col to)) = Inr (at b to)"
    using assms by (simp add: cellAt_sq)
  have mid: "cellAt b (int (row from) + forwardDir turn) (int (col from))
               = Inr (b ! nat (int (row from) + forwardDir turn) ! col from)"
    if "row from = startRow turn"
    using that assms(1,3)
    by (cases turn) (simp_all add: cellAt_wf forwardDir_def startRow_def)
  show ?thesis
  proof (cases turn)
    case Turn_w
    then show ?thesis
      using mid by (cases "at b to") (auto simp: pawnCase_def Let_def dest forwardDir_def startRow_def)
  next
    case Turn_b
    then show ?thesis
      using mid by (cases "at b to") (auto simp: pawnCase_def Let_def dest forwardDir_def startRow_def)
  qed
qed

text \<open>
  C1. On every board, for every side to move and valid squares \<open>f\<close> and \<open>t\<close> where \<open>f\<close> holds
  a pawn of the side to move and \<open>t\<close> does not hold a piece of that side, \<open>isValidMove\<close>
  returns true exactly when one of these holds, the forward direction being \<open>-1\<close> and the
  starting row 6 for the upper-case side, \<open>+1\<close> and row 1 for the lower-case side:
  (a) \<open>dc = 0\<close>, \<open>dr\<close> is the forward direction and the destination is empty;
  (b) \<open>dc = 0\<close>, \<open>dr\<close> is twice the forward direction, the source row is the starting row,
  the square one step forward is empty and the destination is empty;
  (c) \<open>|dc| = 1\<close>, \<open>dr\<close> is the forward direction and the destination is occupied.
  Every other delta is rejected.
\<close>

theorem pawn_moves:
  assumes "wfBoard b" "algebraicToIndices f = Some from" "algebraicToIndices t = Some to"
    and "at b from = Some (pieceOf turn CHR ''p'')"
    and "\<not> friendlyAt b turn to"
  shows "isValidMove b f t turn =
           Inr (let dr = int (row to) - int (row from);
                    dc = int (col to) - int (col from)
                in (dc = 0 \<and> dr = forwardDir turn \<and> at b to = None)
                 \<or> (dc = 0 \<and> dr = 2 * forwardDir turn \<and> row from = startRow turn
                      \<and> b ! nat (int (row from) + forwardDir turn) ! col from = None
                      \<and> at b to = None)
                 \<or> (\<bar>dc\<bar> = 1 \<and> dr = forwardDir turn \<and> at b to \<noteq> None))"
proof -
  have p: "CHR ''p'' \<in> set ''pnbrqk''" by simp
  have low: "toLowerCase (pieceOf turn CHR ''p'') = CHR ''p''"
    using pieceOf_facts[OF p] by blast
  have r: "row from < 8" "col from < 8" "row to < 8" "col to < 8"
    using assms(2,3) algebraicToIndices_range by blast+
  have "pieceCase b from to (pieceOf turn CHR ''p'') (turn = Turn_w) =
          pawnCase b from to (turn = Turn_w)
            (int (row to) - int (row from)) (int (col to) - int (col from))"
    by (simp add: pieceCase_def low Let_def)
  then show ?thesis
    using isValidMove_own[OF assms(1-3) p assms(4)] assms(5) pawnCase_wf[OF assms(1) r]
    by (simp add: Let_def)
qed


theorem pawn_moves_witness:
  "isValidMove startBoard ''e2'' ''e4'' Turn_w = Inr True
   \<and> isValidMove startBoard ''e2'' ''e5'' Turn_w = Inr False
   \<and> isValidMove openBoard ''d6'' ''d5'' Turn_b = Inr True"
proof -
  have h1: "wfBoard startBoard" and h2: "wfBoard openBoard" by code_simp+
  have e2: "algebraicToIndices ''e2'' = Some \<lparr>row = 6, col = 4\<rparr>" by code_simp
  have e4: "algebraicToIndices ''e4'' = Some \<lparr>row = 4, col = 4\<rparr>" by code_simp
  have e5: "algebraicToIndices ''e5'' = Some \<lparr>row = 3, col = 4\<rparr>" by code_simp
  have d6: "algebraicToIndices ''d6'' = Some \<lparr>row = 2, col = 3\<rparr>" by code_simp
  have d5: "algebraicToIndices ''d5'' = Some \<lparr>row = 3, col = 3\<rparr>" by code_simp
  have pw: "at startBoard \<lparr>row = 6, col = 4\<rparr> = Some (pieceOf Turn_w CHR ''p'')" by code_simp
  have pb: "at openBoard \<lparr>row = 2, col = 3\<rparr> = Some (pieceOf Turn_b CHR ''p'')" by code_simp
  have f4: "\<not> friendlyAt startBoard Turn_w \<lparr>row = 4, col = 4\<rparr>" by code_simp
  have f5: "\<not> friendlyAt startBoard Turn_w \<lparr>row = 3, col = 4\<rparr>" by code_simp
  have g5: "\<not> friendlyAt openBoard Turn_b \<lparr>row = 3, col = 3\<rparr>" by code_simp
  show ?thesis
    unfolding pawn_moves[OF h1 e2 e4 pw f4] pawn_moves[OF h1 e2 e5 pw f5]
      pawn_moves[OF h2 d6 d5 pb g5]
    by code_simp
qed

lemma pathLoop_wf:
  assumes "wfBoard b"
    and "\<forall>i \<in> set is. 0 \<le> r0 + int i * sr \<and> r0 + int i * sr < 8
                      \<and> 0 \<le> c0 + int i * sc \<and> c0 + int i * sc < 8"
  shows "pathLoop b r0 c0 sr sc is =
           Inr (list_all (\<lambda>i. b ! nat (r0 + int i * sr) ! nat (c0 + int i * sc) = None) is)"
  using assms(2)
proof (induction "is")
  case Nil
  then show ?case by simp
next
  case (Cons i rest)
  then have "cellAt b (r0 + int i * sr) (c0 + int i * sc)
               = Inr (b ! nat (r0 + int i * sr) ! nat (c0 + int i * sc))"
    using assms(1) by (intro cellAt_wf) auto
  with Cons show ?case
    by (cases "b ! nat (r0 + int i * sr) ! nat (c0 + int i * sc)") auto
qed

lemma step_sgn: "d \<noteq> 0 \<Longrightarrow> d div \<bar>d\<bar> = sgn (d::int)"
proof (cases "d < 0")
  case True
  have "(- 1 * - d) div - d = - 1"
    using True by (intro nonzero_mult_div_cancel_right) simp
  then show ?thesis using True by (simp add: sgn_if)
next
  case False
  assume "d \<noteq> 0"
  with False show ?thesis by (simp add: sgn_if)
qed

lemma on_line_in_range:
  fixes x y :: nat and i :: nat
  assumes "x < 8" "y < 8" "1 \<le> i" "int i < \<bar>int y - int x\<bar>"
  shows "0 \<le> int x + int i * sgn (int y - int x)" "int x + int i * sgn (int y - int x) < 8"
  using assms by (auto simp: sgn_if)

lemma pathEmpty_alt:
  "pathEmpty b from to =
     list_all (\<lambda>i. b ! nat (int (row from) + int i * sgn (int (row to) - int (row from)))
                     ! nat (int (col from) + int i * sgn (int (col to) - int (col from))) = None)
       [1..<nat (max \<bar>int (row to) - int (row from)\<bar> \<bar>int (col to) - int (col from)\<bar>)]"
  by (simp add: pathEmpty_def squaresBetween_def Let_def list_all_iff)

lemma diagonalPath_wf:
  assumes "wfBoard b" "row from < 8" "col from < 8" "row to < 8" "col to < 8"
    and "\<bar>int (row to) - int (row from)\<bar> = \<bar>int (col to) - int (col from)\<bar>"
    and "int (row to) - int (row from) \<noteq> 0"
  shows "diagonalPath b from (int (row to) - int (row from)) (int (col to) - int (col from))
           = Inr (pathEmpty b from to)"
proof -
  let ?dr = "int (row to) - int (row from)" and ?dc = "int (col to) - int (col from)"
  have dc: "?dc \<noteq> 0" using assms(6,7) by auto
  have rng: "\<forall>i \<in> set [1..<nat \<bar>?dr\<bar>].
               0 \<le> int (row from) + int i * sgn ?dr \<and> int (row from) + int i * sgn ?dr < 8
             \<and> 0 \<le> int (col from) + int i * sgn ?dc \<and> int (col from) + int i * sgn ?dc < 8"
  proof
    fix i assume "i \<in> set [1..<nat \<bar>?dr\<bar>]"
    then have i: "1 \<le> i" "int i < \<bar>?dr\<bar>" "int i < \<bar>?dc\<bar>"
      using assms(6) by auto
    show "0 \<le> int (row from) + int i * sgn ?dr \<and> int (row from) + int i * sgn ?dr < 8
             \<and> 0 \<le> int (col from) + int i * sgn ?dc \<and> int (col from) + int i * sgn ?dc < 8"
      using on_line_in_range[OF assms(2,4) i(1,2)] on_line_in_range[OF assms(3,5) i(1,3)]
      by blast
  qed
  have m: "max \<bar>?dr\<bar> \<bar>?dc\<bar> = \<bar>?dr\<bar>" using assms(6) by simp
  show ?thesis
    unfolding diagonalPath_def Let_def step_sgn[OF assms(7)] step_sgn[OF dc]
      pathLoop_wf[OF assms(1) rng] pathEmpty_alt m ..
qed

lemma straightPath_wf:
  assumes "wfBoard b" "row from < 8" "col from < 8" "row to < 8" "col to < 8"
    and "(int (row to) - int (row from) = 0) \<noteq> (int (col to) - int (col from) = 0)"
  shows "straightPath b from (int (row to) - int (row from)) (int (col to) - int (col from))
           = Inr (pathEmpty b from to)"
proof -
  let ?dr = "int (row to) - int (row from)" and ?dc = "int (col to) - int (col from)"
  show ?thesis
  proof (cases "?dr = 0")
    case True
    then have dc: "?dc \<noteq> 0" using assms(6) by simp
    have rng: "\<forall>i \<in> set [1..<nat \<bar>?dc\<bar>].
               0 \<le> int (row from) + int i * 0 \<and> int (row from) + int i * 0 < 8
             \<and> 0 \<le> int (col from) + int i * sgn ?dc \<and> int (col from) + int i * sgn ?dc < 8"
    proof
      fix i assume "i \<in> set [1..<nat \<bar>?dc\<bar>]"
      then have i: "1 \<le> i" "int i < \<bar>?dc\<bar>" by auto
      show "0 \<le> int (row from) + int i * 0 \<and> int (row from) + int i * 0 < 8
             \<and> 0 \<le> int (col from) + int i * sgn ?dc \<and> int (col from) + int i * sgn ?dc < 8"
        using on_line_in_range[OF assms(3,5) i] assms(2) by simp
    qed
    have m: "max \<bar>?dr\<bar> \<bar>?dc\<bar> = \<bar>?dc\<bar>" "sgn ?dr = 0" using True by simp_all
    have "straightPath b from ?dr ?dc
            = pathLoop b (int (row from)) (int (col from)) 0 (sgn ?dc) [1..<nat \<bar>?dc\<bar>]"
      unfolding straightPath_def Let_def step_sgn[OF dc] using True by simp
    then show ?thesis
      unfolding pathLoop_wf[OF assms(1) rng] pathEmpty_alt m by simp
  next
    case False
    then have dc: "?dc = 0" using assms(6) by simp
    have rng: "\<forall>i \<in> set [1..<nat \<bar>?dr\<bar>].
               0 \<le> int (row from) + int i * sgn ?dr \<and> int (row from) + int i * sgn ?dr < 8
             \<and> 0 \<le> int (col from) + int i * 0 \<and> int (col from) + int i * 0 < 8"
    proof
      fix i assume "i \<in> set [1..<nat \<bar>?dr\<bar>]"
      then have i: "1 \<le> i" "int i < \<bar>?dr\<bar>" by auto
      show "0 \<le> int (row from) + int i * sgn ?dr \<and> int (row from) + int i * sgn ?dr < 8
             \<and> 0 \<le> int (col from) + int i * 0 \<and> int (col from) + int i * 0 < 8"
        using on_line_in_range[OF assms(2,4) i] assms(3) by simp
    qed
    have m: "max \<bar>?dr\<bar> \<bar>?dc\<bar> = \<bar>?dr\<bar>" "sgn ?dc = 0" using dc by simp_all
    have "straightPath b from ?dr ?dc
            = pathLoop b (int (row from)) (int (col from)) (sgn ?dr) 0 [1..<nat \<bar>?dr\<bar>]"
      unfolding straightPath_def Let_def step_sgn[OF False] using False by simp
    then show ?thesis
      unfolding pathLoop_wf[OF assms(1) rng] pathEmpty_alt m by simp
  qed
qed

text \<open>The dispatch for the three sliding kinds, away from the null move.\<close>

lemma pieceCase_sliding:
  assumes "wfBoard b" "row from < 8" "col from < 8" "row to < 8" "col to < 8"
    and "kind \<in> set ''brq''" "toLowerCase p = kind"
    and "\<not> (int (row to) - int (row from) = 0 \<and> int (col to) - int (col from) = 0)"
  shows "pieceCase b from to p w =
           Inr (lineOf kind (int (row to) - int (row from)) (int (col to) - int (col from))
                \<and> pathEmpty b from to)"
proof -
  let ?dr = "int (row to) - int (row from)" and ?dc = "int (col to) - int (col from)"
  note wf = assms(1-5)
  consider (diag) "\<bar>?dr\<bar> = \<bar>?dc\<bar>" "?dr \<noteq> 0"
    | (straight) "\<bar>?dr\<bar> \<noteq> \<bar>?dc\<bar>" "(?dr = 0) \<noteq> (?dc = 0)"
    | (off) "\<bar>?dr\<bar> \<noteq> \<bar>?dc\<bar>" "?dr \<noteq> 0" "?dc \<noteq> 0"
    using assms(8) by fastforce
  then show ?thesis
  proof cases
    case diag
    then have "?dc \<noteq> 0" by auto
    with diag assms(6,7) show ?thesis
      using diagonalPath_wf[OF wf diag]
      by (auto simp: pieceCase_def Let_def lineOf_def bishopLine_def rookLine_def)
  next
    case straight
    with assms(6,7) show ?thesis
      using straightPath_wf[OF wf straight(2)]
      by (auto simp: pieceCase_def Let_def lineOf_def bishopLine_def rookLine_def)
  next
    case off
    with assms(6,7) show ?thesis
      by (auto simp: pieceCase_def Let_def lineOf_def bishopLine_def rookLine_def)
  qed
qed

lemma sliding_verdict:
  assumes "wfBoard b" "algebraicToIndices f = Some from" "algebraicToIndices t = Some to"
    and "kind \<in> set ''brq''" "at b from = Some (pieceOf turn kind)"
  shows "isValidMove b f t turn =
           Inr (lineOf kind (int (row to) - int (row from)) (int (col to) - int (col from))
                \<and> pathEmpty b from to \<and> \<not> friendlyAt b turn to)"
proof -
  have k: "kind \<in> set ''pnbrqk''" using assms(4) by auto
  have own: "ownPiece turn (pieceOf turn kind)"
    and low: "toLowerCase (pieceOf turn kind) = kind"
    using pieceOf_facts[OF k] by blast+
  have r: "row from < 8" "col from < 8" "row to < 8" "col to < 8"
    using assms(2,3) algebraicToIndices_range by blast+
  show ?thesis
  proof (cases "friendlyAt b turn to")
    case True
    then show ?thesis using isValidMove_own[OF assms(1-3) k assms(5)] by simp
  next
    case False
    have "to \<noteq> from" using False assms(5) own by (auto simp: friendlyAt_def)
    then have "\<not> (int (row to) - int (row from) = 0 \<and> int (col to) - int (col from) = 0)"
      by auto
    from pieceCase_sliding[OF assms(1) r assms(4) low this, of "turn = Turn_w"] False
    show ?thesis using isValidMove_own[OF assms(1-3) k assms(5)] by simp
  qed
qed


text \<open>
  C2. On every board, for every side to move and valid squares \<open>f\<close> and \<open>t\<close> where \<open>f\<close> holds
  a rook, bishop or queen of the side to move: \<open>isValidMove\<close> returns false whenever a square
  strictly between \<open>f\<close> and \<open>t\<close> along the line is occupied, by either colour, or the
  destination holds a piece of the same side; it returns true when the geometry fits the
  piece (bishop: \<open>|dr| = |dc| > 0\<close>; rook: exactly one of \<open>dr\<close>, \<open>dc\<close> is zero; queen:
  either), every square strictly between is empty, and the destination is empty or holds
  an enemy piece. A delta that does not fit the piece is rejected.
\<close>

theorem sliding_moves:
  assumes "wfBoard b" "algebraicToIndices f = Some from" "algebraicToIndices t = Some to"
    and "kind \<in> set ''brq''" "at b from = Some (pieceOf turn kind)"
  shows "(\<not> pathEmpty b from to \<or> friendlyAt b turn to
            \<longrightarrow> isValidMove b f t turn = Inr False)
       \<and> (lineOf kind (int (row to) - int (row from)) (int (col to) - int (col from))
            \<and> pathEmpty b from to \<and> \<not> friendlyAt b turn to
            \<longrightarrow> isValidMove b f t turn = Inr True)
       \<and> (\<not> lineOf kind (int (row to) - int (row from)) (int (col to) - int (col from))
            \<longrightarrow> isValidMove b f t turn = Inr False)"
  unfolding sliding_verdict[OF assms] by simp

theorem sliding_moves_witness:
  "isValidMove openBoard ''d4'' ''g7'' Turn_w = Inr True
   \<and> isValidMove openBoard ''d4'' ''d7'' Turn_w = Inr False
   \<and> isValidMove openBoard ''d4'' ''d2'' Turn_w = Inr False
   \<and> isValidMove latinBoard ''a1'' ''a8'' Turn_w = Inr True"
proof -
  have h1: "wfBoard openBoard" and h2: "wfBoard latinBoard" by code_simp+
  have a1: "algebraicToIndices ''a1'' = Some \<lparr>row = 7, col = 0\<rparr>" by code_simp
  have a8: "algebraicToIndices ''a8'' = Some \<lparr>row = 0, col = 0\<rparr>" by code_simp
  have kr: "CHR ''r'' \<in> set ''brq''" by simp
  have rl: "at latinBoard \<lparr>row = 7, col = 0\<rparr> = Some (pieceOf Turn_w CHR ''r'')" by code_simp
  have d: "lineOf CHR ''r'' (int (row \<lparr>row = 0, col = 0\<rparr>) - int (row \<lparr>row = 7, col = 0\<rparr>))
             (int (col \<lparr>row = 0, col = 0\<rparr>) - int (col \<lparr>row = 7, col = 0\<rparr>))
           \<and> pathEmpty latinBoard \<lparr>row = 7, col = 0\<rparr> \<lparr>row = 0, col = 0\<rparr>
           \<and> \<not> friendlyAt latinBoard Turn_w \<lparr>row = 0, col = 0\<rparr>"
    by code_simp
  have d4: "algebraicToIndices ''d4'' = Some \<lparr>row = 4, col = 3\<rparr>" by code_simp
  have g7: "algebraicToIndices ''g7'' = Some \<lparr>row = 1, col = 6\<rparr>" by code_simp
  have d7: "algebraicToIndices ''d7'' = Some \<lparr>row = 1, col = 3\<rparr>" by code_simp
  have d2: "algebraicToIndices ''d2'' = Some \<lparr>row = 6, col = 3\<rparr>" by code_simp
  have k: "CHR ''q'' \<in> set ''brq''" by simp
  have q: "at openBoard \<lparr>row = 4, col = 3\<rparr> = Some (pieceOf Turn_w CHR ''q'')" by code_simp
  have a: "lineOf CHR ''q'' (int (row \<lparr>row = 1, col = 6\<rparr>) - int (row \<lparr>row = 4, col = 3\<rparr>))
             (int (col \<lparr>row = 1, col = 6\<rparr>) - int (col \<lparr>row = 4, col = 3\<rparr>))
           \<and> pathEmpty openBoard \<lparr>row = 4, col = 3\<rparr> \<lparr>row = 1, col = 6\<rparr>
           \<and> \<not> friendlyAt openBoard Turn_w \<lparr>row = 1, col = 6\<rparr>"
    by code_simp
  have b: "\<not> pathEmpty openBoard \<lparr>row = 4, col = 3\<rparr> \<lparr>row = 1, col = 3\<rparr>
           \<or> friendlyAt openBoard Turn_w \<lparr>row = 1, col = 3\<rparr>"
    by code_simp
  have c: "\<not> pathEmpty openBoard \<lparr>row = 4, col = 3\<rparr> \<lparr>row = 6, col = 3\<rparr>
           \<or> friendlyAt openBoard Turn_w \<lparr>row = 6, col = 3\<rparr>"
    by code_simp
  show ?thesis
    using sliding_moves[OF h1 d4 g7 k q] sliding_moves[OF h1 d4 d7 k q]
      sliding_moves[OF h1 d4 d2 k q] sliding_moves[OF h2 a1 a8 kr rl] a b c d
    by blast
qed

lemma wfBoard_withPiece: "wfBoard b \<Longrightarrow> wfBoard (withPiece b sq p)"
  by (cases "row sq < length b")
     (auto simp: wfBoard_def withPiece_def list_all_length nth_list_update)

lemma at_withPiece_same:
  "wfBoard b \<Longrightarrow> row sq < 8 \<Longrightarrow> col sq < 8 \<Longrightarrow> at (withPiece b sq p) sq = Some p"
  by (simp add: wfBoard_def withPiece_def at_def list_all_length)

lemma withPiece_other:
  "row sq < length b \<Longrightarrow> (r, c) \<noteq> (row sq, col sq) \<Longrightarrow> withPiece b sq p ! r ! c = b ! r ! c"
  by (cases "r = row sq") (auto simp: withPiece_def)

lemma off_origin:
  fixes x y i :: nat
  shows "1 \<le> i \<Longrightarrow> int y - int x \<noteq> 0 \<Longrightarrow> nat (int x + int i * sgn (int y - int x)) \<noteq> x"
  by (auto simp: sgn_if)

lemma pathEmpty_withPiece:
  assumes "row from < length b"
  shows "pathEmpty (withPiece b from p) from to = pathEmpty b from to"
proof -
  let ?dr = "int (row to) - int (row from)" and ?dc = "int (col to) - int (col from)"
  let ?sq = "\<lambda>i. (nat (int (row from) + int i * sgn ?dr), nat (int (col from) + int i * sgn ?dc))"
  have "withPiece b from p ! fst (?sq i) ! snd (?sq i) = b ! fst (?sq i) ! snd (?sq i)"
    if "i \<in> set [1..<nat (max \<bar>?dr\<bar> \<bar>?dc\<bar>)]" for i
  proof -
    from that have i: "1 \<le> i" and "?dr \<noteq> 0 \<or> ?dc \<noteq> 0" by auto
    then have "?sq i \<noteq> (row from, col from)"
      using off_origin[OF i, of "row to" "row from"] off_origin[OF i, of "col to" "col from"]
      by auto
    then show ?thesis using withPiece_other[OF assms] by simp
  qed
  then show ?thesis
    unfolding pathEmpty_alt list_all_iff by simp
qed

lemma friendlyAt_withPiece:
  assumes "wfBoard b" "row from < 8" "col from < 8"
    and "at b from = Some q" "ownPiece turn q" "ownPiece turn p"
  shows "friendlyAt (withPiece b from p) turn to = friendlyAt b turn to"
proof (cases "to = from")
  case True
  then show ?thesis
    using assms by (simp add: friendlyAt_def at_withPiece_same)
next
  case False
  then have "(row to, col to) \<noteq> (row from, col from)" by auto
  moreover have "row from < length b" using assms(1,2) by (simp add: wfBoard_def)
  ultimately have "at (withPiece b from p) to = at b to"
    unfolding at_def by (rule withPiece_other[rotated])
  then show ?thesis by (simp add: friendlyAt_def)
qed

lemma sliding_verdict_replaced:
  assumes "wfBoard b" "algebraicToIndices f = Some from" "algebraicToIndices t = Some to"
    and "at b from = Some (pieceOf turn CHR ''q'')" "kind \<in> set ''brq''"
  shows "isValidMove (withPiece b from (pieceOf turn kind)) f t turn =
           Inr (lineOf kind (int (row to) - int (row from)) (int (col to) - int (col from))
                \<and> pathEmpty b from to \<and> \<not> friendlyAt b turn to)"
proof -
  have r: "row from < 8" "col from < 8"
    using assms(2) algebraicToIndices_range by blast+
  have len: "row from < length b" using assms(1) r by (simp add: wfBoard_def)
  have q: "CHR ''q'' \<in> set ''pnbrqk''" and k: "kind \<in> set ''pnbrqk''"
    using assms(5) by auto
  have own: "ownPiece turn (pieceOf turn CHR ''q'')" "ownPiece turn (pieceOf turn kind)"
    using pieceOf_facts(1)[OF q] pieceOf_facts(1)[OF k] by blast+
  show ?thesis
    using sliding_verdict[OF wfBoard_withPiece[OF assms(1)] assms(2,3,5)
            at_withPiece_same[OF assms(1) r], of turn]
    by (simp add: pathEmpty_withPiece[OF len]
          friendlyAt_withPiece[OF assms(1) r assms(4) own])
qed

text \<open>
  C6. Queen movement is the union of rook movement and bishop movement: on every board
  whose cell at the valid square \<open>f\<close> holds a queen of the side to move, and for every valid
  square \<open>t\<close>, \<open>isValidMove\<close> returns true if and only if it returns true on the board with
  that queen replaced by a rook of the same colour, or on the board with it replaced by a
  bishop of the same colour.
\<close>

theorem queen_is_rook_or_bishop:
  assumes "wfBoard b" "algebraicToIndices f = Some from" "algebraicToIndices t = Some to"
    and "at b from = Some (pieceOf turn CHR ''q'')"
  shows "isValidMove b f t turn = Inr True \<longleftrightarrow>
           isValidMove (withPiece b from (pieceOf turn CHR ''r'')) f t turn = Inr True
         \<or> isValidMove (withPiece b from (pieceOf turn CHR ''b'')) f t turn = Inr True"
proof -
  have q: "CHR ''q'' \<in> set ''brq''" and r: "CHR ''r'' \<in> set ''brq''"
    and bi: "CHR ''b'' \<in> set ''brq''" by simp_all
  show ?thesis
    unfolding sliding_verdict[OF assms(1-3) q assms(4)]
      sliding_verdict_replaced[OF assms r] sliding_verdict_replaced[OF assms bi]
    by (auto simp: lineOf_def)
qed

theorem queen_is_rook_or_bishop_witness:
  "isValidMove openBoard ''d4'' ''a4'' Turn_w = Inr True
   \<and> isValidMove (withPiece openBoard \<lparr>row = 4, col = 3\<rparr> CHR ''R'') ''d4'' ''a4'' Turn_w
         = Inr True
   \<and> isValidMove (withPiece openBoard \<lparr>row = 4, col = 3\<rparr> CHR ''B'') ''d4'' ''a4'' Turn_w
         = Inr False"
proof -
  have h1: "wfBoard openBoard" by code_simp
  have d4: "algebraicToIndices ''d4'' = Some \<lparr>row = 4, col = 3\<rparr>" by code_simp
  have a4: "algebraicToIndices ''a4'' = Some \<lparr>row = 4, col = 0\<rparr>" by code_simp
  have q: "at openBoard \<lparr>row = 4, col = 3\<rparr> = Some (pieceOf Turn_w CHR ''q'')" by code_simp
  have p: "pieceOf Turn_w CHR ''r'' = CHR ''R''" "pieceOf Turn_w CHR ''b'' = CHR ''B''"
    by code_simp+
  have v: "isValidMove openBoard ''d4'' ''a4'' Turn_w = Inr True" by code_simp
  have w: "isValidMove (withPiece openBoard \<lparr>row = 4, col = 3\<rparr> CHR ''B'') ''d4'' ''a4'' Turn_w
             = Inr False" by code_simp
  show ?thesis
    using queen_is_rook_or_bishop[OF h1 d4 a4 q] v w unfolding p by simp
qed

section \<open>Applying a move: frame and fallback\<close>

lemma copyRows_result:
  "list_all (\<lambda>a. a < length (rowObjs s)) refs \<Longrightarrow>
   copyRows refs s =
     ([length (rowObjs s) ..< length (rowObjs s) + length refs],
      s\<lparr>rowObjs := rowObjs s @ map (\<lambda>a. rowObjs s ! a) refs\<rparr>)"
proof (induction refs arbitrary: s)
  case Nil
  then show ?case by simp
next
  case (Cons a rest)
  let ?s1 = "s\<lparr>rowObjs := rowObjs s @ [rowObjs s ! a]\<rparr>"
  from Cons.prems have a: "a < length (rowObjs s)"
    and rest: "list_all (\<lambda>a. a < length (rowObjs s)) rest" by simp_all
  from rest have "list_all (\<lambda>a. a < length (rowObjs ?s1)) rest"
    by (auto simp: list_all_iff)
  from Cons.IH[OF this]
  have ih: "copyRows rest ?s1 =
          ([Suc (length (rowObjs s)) ..< Suc (length (rowObjs s)) + length rest],
           ?s1\<lparr>rowObjs := rowObjs ?s1 @ map (\<lambda>a. rowObjs ?s1 ! a) rest\<rparr>)"
    by simp
  have same: "map (\<lambda>a. rowObjs ?s1 ! a) rest = map (\<lambda>a. rowObjs s ! a) rest"
    using rest by (simp add: list_all_iff nth_append)
  have u: "[length (rowObjs s) ..< length (rowObjs s) + length (a # rest)]
             = length (rowObjs s) # [Suc (length (rowObjs s)) ..< Suc (length (rowObjs s)) + length rest]"
    by (simp del: upt_Suc add: upt_conv_Cons)
  have "copyRows (a # rest) s =
          (length (rowObjs s) # [Suc (length (rowObjs s)) ..< Suc (length (rowObjs s)) + length rest],
           ?s1\<lparr>rowObjs := rowObjs ?s1 @ map (\<lambda>a. rowObjs ?s1 ! a) rest\<rparr>)"
    by (simp add: newRow_def ih)
  also have "\<dots> = ([length (rowObjs s) ..< length (rowObjs s) + length (a # rest)],
                   s\<lparr>rowObjs := rowObjs s @ map (\<lambda>a. rowObjs s ! a) (a # rest)\<rparr>)"
    unfolding same u by simp
  finally show ?case .
qed

lemma map_nth_append_upt:
  "map (\<lambda>a. (xs @ ys) ! a) [length xs ..< length xs + length ys] = ys"
  by (rule nth_equalityI) (simp_all add: nth_append)

text \<open>The store and the reference that \<open>makeMove\<close> returns for a board of eight rows, in
  closed form: the old objects, then the eight copied rows with the two assignments made,
  then the new grid.\<close>

lemma makeMove_store:
  assumes "validRef s g" "wfBoard (boardOf s g)"
    and "algebraicToIndices f = Some from" "algebraicToIndices t = Some to"
  defines "B \<equiv> boardOf s g"
  defines "B1 \<equiv> B[row to := (B ! row to)[col to := B ! row from ! col from]]"
  defines "B2 \<equiv> B1[row from := (B1 ! row from)[col from := None]]"
  shows "makeMove s g f t =
           Inr (s\<lparr>rowObjs := rowObjs s @ B2,
                   gridObjs := gridObjs s @ [[length (rowObjs s) ..< length (rowObjs s) + 8]]\<rparr>,
               length (gridObjs s))"
proof -
  let ?n = "length (rowObjs s)" and ?refs = "gridObjs s ! g"
  have r: "row from < 8" "col from < 8" "row to < 8" "col to < 8"
    using assms(3,4) algebraicToIndices_range by blast+
  have refs: "list_all (\<lambda>a. a < ?n) ?refs" using assms(1) by (simp add: validRef_def)
  have lenB: "length B = 8" and rowB: "\<And>i. i < 8 \<Longrightarrow> length (B ! i) = 8"
    using assms(2) by (simp_all add: B_def wfBoard_def list_all_length)
  have len: "length ?refs = 8" using lenB by (simp add: B_def boardOf_def)
  have lenB1: "length B1 = 8" and rowB1: "\<And>i. i < 8 \<Longrightarrow> length (B1 ! i) = 8"
    using lenB rowB r by (auto simp: B1_def nth_list_update)
  have copy: "copyRows ?refs s = ([?n ..< ?n + 8], s\<lparr>rowObjs := rowObjs s @ B\<rparr>)"
    using copyRows_result[OF refs] by (simp add: len B_def boardOf_def)
  let ?s2 = "s\<lparr>rowObjs := rowObjs s @ B, gridObjs := gridObjs s @ [[?n ..< ?n + 8]]\<rparr>"
  let ?g' = "length (gridObjs s)"
  have grid2: "newGrid [?n ..< ?n + 8] (s\<lparr>rowObjs := rowObjs s @ B\<rparr>) = (?g', ?s2)"
    by (simp add: newGrid_def)
  have gr2: "\<And>i. i < 8 \<Longrightarrow> gridRow ?s2 ?g' i = Inr (?n + i)"
    by (simp add: gridRow_def)
  have piece: "rowGet ?s2 (?n + row from) (col from) = B ! row from ! col from"
    using r lenB rowB by (simp add: rowGet_def nth_append)
  let ?s3 = "s\<lparr>rowObjs := rowObjs s @ B1, gridObjs := gridObjs s @ [[?n ..< ?n + 8]]\<rparr>"
  have set1: "rowSet ?s2 (?n + row to) (col to) (B ! row from ! col from) = ?s3"
    using r lenB rowB by (simp add: rowSet_def arraySet_def list_update_append B1_def)
  have gr3: "\<And>i. i < 8 \<Longrightarrow> gridRow ?s3 ?g' i = Inr (?n + i)"
    by (simp add: gridRow_def)
  have set2: "rowSet ?s3 (?n + row from) (col from) None
                = s\<lparr>rowObjs := rowObjs s @ B2, gridObjs := gridObjs s @ [[?n ..< ?n + 8]]\<rparr>"
    using r lenB1 rowB1 by (simp add: rowSet_def arraySet_def list_update_append B2_def)
  show ?thesis
    unfolding makeMove_def
    by (simp add: assms(3,4) copy grid2 gr2 gr3 r piece set1 set2)
qed


text \<open>
  C3. For every board \<open>B\<close> (a valid reference \<open>g\<close> to an 8x8 grid in a store \<open>s\<close>) and valid,
  distinct squares \<open>f\<close> and \<open>t\<close>, \<open>makeMove\<close> returns a new board that equals \<open>B\<close> at every cell
  except that the cell of \<open>t\<close> holds the piece \<open>B\<close> held at \<open>f\<close>, whatever was there before, and
  the cell of \<open>f\<close> is empty. The board passed in is left as it was: the returned grid is
  another object than \<open>g\<close>, its rows are other objects than the rows of \<open>g\<close>, every object of
  the store before the call is unchanged after it, and \<open>g\<close> still denotes \<open>B\<close>.
\<close>

theorem makeMove_frame:
  assumes "validRef s g" "wfBoard (boardOf s g)"
    and "algebraicToIndices f = Some from" "algebraicToIndices t = Some to" "f \<noteq> t"
  shows "\<exists>s' g'. makeMove s g f t = Inr (s', g')
           \<and> wfBoard (boardOf s' g')
           \<and> at (boardOf s' g') to = at (boardOf s g) from
           \<and> at (boardOf s' g') from = None
           \<and> (\<forall>r<8. \<forall>c<8. (r, c) \<noteq> (row from, col from) \<and> (r, c) \<noteq> (row to, col to)
                 \<longrightarrow> boardOf s' g' ! r ! c = boardOf s g ! r ! c)
           \<and> g' \<noteq> g
           \<and> set (gridObjs s' ! g') \<inter> set (gridObjs s ! g) = {}
           \<and> (\<forall>a<length (rowObjs s). rowObjs s' ! a = rowObjs s ! a)
           \<and> (\<forall>a<length (gridObjs s). gridObjs s' ! a = gridObjs s ! a)
           \<and> boardOf s' g = boardOf s g"
proof -
  define B where "B = boardOf s g"
  define B1 where "B1 = B[row to := (B ! row to)[col to := B ! row from ! col from]]"
  define B2 where "B2 = B1[row from := (B1 ! row from)[col from := None]]"
  let ?n = "length (rowObjs s)"
  define s' where
    "s' = s\<lparr>rowObjs := rowObjs s @ B2, gridObjs := gridObjs s @ [[?n ..< ?n + 8]]\<rparr>"
  define g' where "g' = length (gridObjs s)"
  have res: "makeMove s g f t = Inr (s', g')"
    using makeMove_store[OF assms(1-4)] by (simp add: s'_def g'_def B2_def B1_def B_def)
  have r: "row from < 8" "col from < 8" "row to < 8" "col to < 8"
    using assms(3,4) algebraicToIndices_range by blast+
  have ne: "from \<noteq> to" using assms(3-5) algebraicToIndices_inj by blast
  have g: "g < length (gridObjs s)" and refs: "\<forall>a \<in> set (gridObjs s ! g). a < ?n"
    using assms(1) by (simp_all add: validRef_def list_all_iff)
  have lenB: "length B = 8" and rowB: "\<And>i. i < 8 \<Longrightarrow> length (B ! i) = 8"
    using assms(2) by (simp_all add: B_def wfBoard_def list_all_length)
  have lenB2: "length B2 = 8" and rowB2: "\<And>i. i < 8 \<Longrightarrow> length (B2 ! i) = 8"
    using lenB rowB r by (auto simp: B2_def B1_def nth_list_update)
  have new: "boardOf s' g' = B2"
    using map_nth_append_upt[of "rowObjs s" B2]
    by (simp add: boardOf_def s'_def g'_def lenB2)
  have old_rows: "\<forall>a<?n. rowObjs s' ! a = rowObjs s ! a"
    by (simp add: s'_def nth_append)
  have old_grids: "\<forall>a<length (gridObjs s). gridObjs s' ! a = gridObjs s ! a"
    by (simp add: s'_def nth_append)
  have old: "boardOf s' g = boardOf s g"
    using g refs old_rows old_grids by (simp add: boardOf_def)
  have fresh: "set (gridObjs s' ! g') \<inter> set (gridObjs s ! g) = {}"
    using refs by (auto simp: s'_def g'_def)
  have wf: "wfBoard B2"
    using lenB2 rowB2 by (simp add: wfBoard_def list_all_length)
  have nec: "col to \<noteq> col from" if "row to = row from"
    using ne that by (cases "from"; cases "to") simp
  have dest: "at B2 to = at B from"
    using nec r lenB rowB
    by (cases "row to = row from") (auto simp: at_def B2_def B1_def)
  have src: "at B2 from = None"
    using r lenB rowB
    by (cases "row to = row from") (auto simp: at_def B2_def B1_def)
  have other: "B2 ! r ! c = B ! r ! c"
    if "r < 8" "c < 8" "(r, c) \<noteq> (row from, col from)" "(r, c) \<noteq> (row to, col to)" for r c
    using that lenB rowB
    by (cases "r = row from"; cases "r = row to") (auto simp: B2_def B1_def)
  show ?thesis
    using res wf dest src other g fresh old_rows old_grids old
    unfolding new[symmetric] B_def g'_def[symmetric]
    by (intro exI[of _ s'] exI[of _ g']) (simp add: g'_def)
qed

theorem makeMove_frame_witness:
  "\<exists>s' g'. makeMove startStore 0 ''e2'' ''e4'' = Inr (s', g')
      \<and> at (boardOf s' g') \<lparr>row = 4, col = 4\<rparr> = Some CHR ''P''
      \<and> at (boardOf s' g') \<lparr>row = 6, col = 4\<rparr> = None
      \<and> g' \<noteq> 0
      \<and> boardOf s' 0 = startBoard"
proof -
  have h1: "validRef startStore 0" by code_simp
  have h2: "wfBoard (boardOf startStore 0)" by code_simp
  have e2: "algebraicToIndices ''e2'' = Some \<lparr>row = 6, col = 4\<rparr>" by code_simp
  have e4: "algebraicToIndices ''e4'' = Some \<lparr>row = 4, col = 4\<rparr>" by code_simp
  have ne: "''e2'' \<noteq> ''e4''" by simp
  have b: "boardOf startStore 0 = startBoard" by code_simp
  have p: "at startBoard \<lparr>row = 6, col = 4\<rparr> = Some CHR ''P''" by code_simp
  from makeMove_frame[OF h1 h2 e2 e4 ne] show ?thesis
    unfolding b p by blast
qed

text \<open>
  C8. For every board and every pair of square strings of which at least one is not a
  valid algebraic square (wrong length, file outside a..h, or rank outside 1..8),
  \<open>makeMove\<close> returns the board it was given, the same reference in the same store, as a
  normal result and not as a raised error.
\<close>

theorem makeMove_invalid_square:
  assumes "\<not> validSquare f \<or> \<not> validSquare t"
  shows "makeMove s g f t = Inr (s, g)"
  using assms unfolding algebraicToIndices_None[symmetric] makeMove_def
  by (auto split: option.splits)

theorem makeMove_invalid_square_witness:
  "makeMove startStore 0 ''e2'' ''e9'' = Inr (startStore, 0)
   \<and> makeMove startStore 0 ''i2'' ''e4'' = Inr (startStore, 0)
   \<and> makeMove startStore 0 ''e'' ''e4'' = Inr (startStore, 0)"
proof -
  have a: "\<not> validSquare ''e2'' \<or> \<not> validSquare ''e9''" by code_simp
  have b: "\<not> validSquare ''i2'' \<or> \<not> validSquare ''e4''" by code_simp
  have c: "\<not> validSquare ''e'' \<or> \<not> validSquare ''e4''" by code_simp
  show ?thesis
    using makeMove_invalid_square[OF a] makeMove_invalid_square[OF b]
      makeMove_invalid_square[OF c]
    by simp
qed

end
